theory Spec2Isabelle
  imports Main "HOL-Library.Multiset"
begin

section \<open>Data model of the memory game (App component)\<close>

text \<open>
  The game lives in the React component \<open>App\<close>: its \<open>useState\<close> cells are the session
  state, \<open>initGame\<close> builds the deck, \<open>handleCardClick\<close> is the flip handler, and the
  \<open>Card\<close> component guards every click before it reaches the handler.
  JavaScript numbers are modelled as \<open>nat\<close> (ids, counters) and \<open>int\<close> (points, scores).
\<close>

datatype cardType = ImageType | TextType

datatype gameMode = Solo | Multiplayer

datatype player = Player1 | Player2

datatype view = Menu | Game | Admin

datatype error = TypeError

datatype alert = NeedSixCards

text \<open>\<open>interface CardData\<close>: an optional field is an \<open>option\<close> (\<open>None\<close> for absent or null).\<close>

record CardData =
  id' :: string
  image_data :: string
  points :: "int option"
  author :: "string option"
  appwriteId :: "string option"
  fileId :: "string option"

text \<open>\<open>interface GameCard extends CardData\<close>.\<close>

record GameCard = CardData +
  uniqueId :: nat
  isFlipped :: bool
  isMatched :: bool
  isHighlighting :: "bool option"
  cardType :: cardType

record Scores =
  p1 :: int
  p2 :: int

text \<open>
  The callbacks handed to \<open>setTimeout\<close> by \<open>handleCardClick\<close>, each with the values its
  closure captured when the click was handled:
  the highlight callback (600 ms; \<open>firstId\<close>, \<open>secondId\<close>, \<open>firstCard\<close>, \<open>gameMode\<close>,
  \<open>currentPlayer\<close>, \<open>matches\<close>), the callback nested in it that marks the pair as matched
  (2000 ms later), and the mismatch callback (1000 ms; \<open>newFlipped\<close>, \<open>gameMode\<close>).
\<close>

datatype timer =
    MatchHighlight nat nat GameCard gameMode player nat
  | MatchResolve GameCard gameMode player nat
  | NoMatch "nat list" gameMode

text \<open>
  The state cells of \<open>App\<close> that the game uses, together with the two parts of the
  browser the handlers act on: the pending \<open>setTimeout\<close> callbacks (delay in ms and
  callback, in order of registration) and the \<open>alert\<close>s shown so far.
\<close>

record App =
  view :: view
  gameMode :: gameMode
  currentPlayer :: player
  scores :: Scores
  cards :: "GameCard list"
  flippedCards :: "nat list"
  matches :: nat
  moves :: nat
  isWon :: bool
  isAdminAuth :: bool
  showPassModal :: bool
  matchedCardId :: "string option"
  timers :: "(nat \<times> timer) list"
  alerts :: "alert list"

section \<open>The flip handler\<close>

text \<open>\<open>Array.prototype.findIndex\<close>; \<open>None\<close> stands for the result \<open>-1\<close>.\<close>

fun findIndex :: "('a \<Rightarrow> bool) \<Rightarrow> 'a list \<Rightarrow> nat option" where
  "findIndex P [] = None"
| "findIndex P (x # xs) = (if P x then Some 0 else map_option Suc (findIndex P xs))"

text \<open>
  \<open>handleCardClick(uniqueId)\<close>. The only guard of the handler itself is the test for two
  pending cards. \<open>newCards[cardIndex].isFlipped = true\<close> raises a TypeError when
  \<open>findIndex\<close> returned \<open>-1\<close>, before any state setter has run; \<open>firstCard.id\<close> and
  \<open>secondCard.id\<close> raise one when \<open>find\<close> returned \<open>undefined\<close>, after \<open>setCards\<close>,
  \<open>setFlippedCards\<close> and \<open>setMoves\<close> were called. An error carries the state reached.
  The card objects of \<open>cards\<close> and \<open>newCards\<close> are the same objects, so \<open>cards.find\<close>
  sees the flipped card.
\<close>

definition handleCardClick :: "nat \<Rightarrow> App \<Rightarrow> (error \<times> App) + App" where
  "handleCardClick uid st =
    (if length (flippedCards st) = 2 then Inr st
     else
       (case findIndex (\<lambda>c. uniqueId c = uid) (cards st) of
          None \<Rightarrow> Inl (TypeError, st)
        | Some cardIndex \<Rightarrow>
            (let newCards = (cards st)[cardIndex := (cards st ! cardIndex)\<lparr>isFlipped := True\<rparr>];
                 newFlipped = flippedCards st @ [uid];
                 st1 = st\<lparr>cards := newCards, flippedCards := newFlipped\<rparr>
             in if length newFlipped = 2 then
                  (let st2 = st1\<lparr>moves := moves st + 1\<rparr>;
                       firstId = newFlipped ! 0;
                       secondId = newFlipped ! 1
                   in (case find (\<lambda>c. uniqueId c = firstId) newCards of
                         None \<Rightarrow> Inl (TypeError, st2)
                       | Some firstCard \<Rightarrow>
                           (case find (\<lambda>c. uniqueId c = secondId) newCards of
                              None \<Rightarrow> Inl (TypeError, st2)
                            | Some secondCard \<Rightarrow>
                                if id' firstCard = id' secondCard
                                then Inr (st2\<lparr>timers := timers st @
                                       [(600, MatchHighlight firstId secondId firstCard
                                                (gameMode st) (currentPlayer st) (matches st))]\<rparr>)
                                else Inr (st2\<lparr>timers := timers st @
                                       [(1000, NoMatch newFlipped (gameMode st))]\<rparr>))))
                else Inr st1)))"

text \<open>
  The \<open>onClick\<close> of the \<open>Card\<close> rendered for position \<open>i\<close> of \<open>cards\<close>:
  \<open>!disabled && !card.isFlipped && !card.isMatched && onClick()\<close> with
  \<open>disabled = (flippedCards.length === 2)\<close> and
  \<open>onClick = handleCardClick(card.uniqueId)\<close>. \<open>App\<close> renders one \<open>Card\<close> per element
  of \<open>cards\<close>; beyond the deck there is nothing to click and the state stays as it is.
\<close>

definition cardOnClick :: "nat \<Rightarrow> App \<Rightarrow> (error \<times> App) + App" where
  "cardOnClick i st =
    (if i < length (cards st) then
       (let c = cards st ! i;
            disabled = (length (flippedCards st) = 2)
        in if \<not> disabled \<and> \<not> isFlipped c \<and> \<not> isMatched c
           then handleCardClick (uniqueId c) st
           else Inr st)
     else Inr st)"

section \<open>Timer callbacks\<close>

text \<open>\<open>firstCard.points || 10\<close>: absent, null and 0 are falsy.\<close>

definition cardPoints :: "GameCard \<Rightarrow> int" where
  "cardPoints firstCard =
    (case points firstCard of None \<Rightarrow> 10 | Some p \<Rightarrow> if p = 0 then 10 else p)"

text \<open>
  The bodies of the three callbacks. The state setters with an updater function
  (\<open>setCards(prev => ...)\<close>, \<open>setMatches(m => m + 1)\<close>, \<open>setScores(prev => ...)\<close>,
  \<open>setCurrentPlayer(prev => ...)\<close>) read the state at the time the callback runs;
  \<open>gameMode\<close>, \<open>currentPlayer\<close>, \<open>matches\<close> and \<open>firstCard\<close> are the captured values.
\<close>

fun runTimer :: "timer \<Rightarrow> App \<Rightarrow> App" where
  "runTimer (MatchHighlight firstId secondId firstCard gm cp m) st =
     st\<lparr>cards := map (\<lambda>c. if uniqueId c = firstId \<or> uniqueId c = secondId
                            then c\<lparr>isHighlighting := Some True\<rparr> else c) (cards st),
        matchedCardId := Some (id' firstCard),
        timers := timers st @ [(2000, MatchResolve firstCard gm cp m)]\<rparr>"
| "runTimer (MatchResolve firstCard gm cp m) st =
     st\<lparr>cards := map (\<lambda>c. if id' c = id' firstCard
                            then c\<lparr>isMatched := True, isHighlighting := Some False\<rparr> else c)
                      (cards st),
        matches := matches st + 1,
        matchedCardId := None,
        scores := (if gm = Solo then (scores st)\<lparr>p1 := p1 (scores st) + cardPoints firstCard\<rparr>
                   else if cp = Player1
                        then (scores st)\<lparr>p1 := p1 (scores st) + cardPoints firstCard\<rparr>
                        else (scores st)\<lparr>p2 := p2 (scores st) + cardPoints firstCard\<rparr>),
        flippedCards := [],
        isWon := (if m + 1 = 6 then True else isWon st)\<rparr>"
| "runTimer (NoMatch newFlipped gm) st =
     st\<lparr>cards := map (\<lambda>c. if uniqueId c \<in> set newFlipped
                            then c\<lparr>isFlipped := False\<rparr> else c) (cards st),
        flippedCards := [],
        currentPlayer := (if gm = Multiplayer
                          then (if currentPlayer st = Player1 then Player2 else Player1)
                          else currentPlayer st)\<rparr>"

text \<open>
  The \<open>k\<close>-th pending callback fires: it leaves the queue and its body runs. Which of
  several pending callbacks is due first depends on the times of the clicks, so any of
  them may be named; no callback is ever removed in another way (the source calls
  \<open>clearTimeout\<close> nowhere).
\<close>

definition fireTimer :: "nat \<Rightarrow> App \<Rightarrow> App" where
  "fireTimer k st =
    (if k < length (timers st)
     then runTimer (snd (timers st ! k))
            (st\<lparr>timers := take k (timers st) @ drop (Suc k) (timers st)\<rparr>)
     else st)"

text \<open>A session is driven by clicks on cards and by callbacks that fire.\<close>

datatype event = Click nat | TimerFires nat

fun step :: "event \<Rightarrow> App \<Rightarrow> (error \<times> App) + App" where
  "step (Click i) st = cardOnClick i st"
| "step (TimerFires k) st = Inr (fireTimer k st)"

fun run :: "event list \<Rightarrow> App \<Rightarrow> (error \<times> App) + App" where
  "run [] st = Inr st"
| "run (e # es) st = (case step e st of Inl err \<Rightarrow> Inl err | Inr st' \<Rightarrow> run es st')"

section \<open>Starting a game\<close>

text \<open>
  \<open>xs.sort(() => Math.random() - 0.5)\<close> rearranges the array in an order that the
  random draws and the engine's sorting algorithm decide. The order reached is a parameter:
  \<open>order\<close> lists, for each position of the result, the position of the input that lands
  there, and is a permutation of the positions of \<open>xs\<close>.
\<close>

definition randomSort :: "nat list \<Rightarrow> 'a list \<Rightarrow> 'a list" where
  "randomSort order xs = map (\<lambda>i. xs ! i) order"

text \<open>
  \<open>{...card, uniqueId: Math.random(), isFlipped: false, isMatched: false, cardType}\<close>;
  \<open>tmp\<close> is the temporary id drawn by \<open>Math.random()\<close>.
\<close>

definition gameCard :: "CardData \<Rightarrow> nat \<Rightarrow> cardType \<Rightarrow> GameCard" where
  "gameCard c tmp ty =
    \<lparr>id' = id' c, image_data = image_data c, points = points c,
     author = author c, appwriteId = appwriteId c, fileId = fileId c,
     uniqueId = tmp, isFlipped = False, isMatched = False, isHighlighting = None,
     cardType = ty\<rparr>"

text \<open>
  The deck construction inside \<open>initGame\<close> (from \<open>shuffledPool\<close> to \<open>finalPool\<close>):
  shuffle the catalog and take 6, push an image and a text card for each, shuffle the 12
  cards and number them by position. \<open>tmpId k\<close> is the \<open>k\<close>-th temporary id drawn.
\<close>

definition buildDeck :: "nat list \<Rightarrow> nat list \<Rightarrow> (nat \<Rightarrow> nat) \<Rightarrow> CardData list \<Rightarrow> GameCard list" where
  "buildDeck order1 order2 tmpId allCards =
    (let shuffledPool = randomSort order1 allCards;
         selected = take 6 shuffledPool;
         gamePool = concat (map (\<lambda>(k, c). [gameCard c (tmpId (2 * k)) ImageType,
                                              gameCard c (tmpId (2 * k + 1)) TextType])
                             (enumerate 0 selected))
     in map (\<lambda>(index, c). c\<lparr>uniqueId := index\<rparr>)
            (enumerate 0 (randomSort order2 gamePool)))"

definition handleAdminAccess :: "App \<Rightarrow> App" where
  "handleAdminAccess st =
    (if isAdminAuth st then st\<lparr>view := Admin\<rparr> else st\<lparr>showPassModal := True\<rparr>)"

text \<open>
  \<open>initGame(mode = gameMode)\<close> from the point where the catalog \<open>allCards\<close> has been
  fetched. With fewer than 6 cards it alerts, calls \<open>handleAdminAccess\<close> and returns.
  Pending timers are not touched.
\<close>

definition initGame ::
  "gameMode option \<Rightarrow> CardData list \<Rightarrow> nat list \<Rightarrow> nat list \<Rightarrow> (nat \<Rightarrow> nat) \<Rightarrow> App \<Rightarrow> App" where
  "initGame modeArg allCards order1 order2 tmpId st =
    (let mode = (case modeArg of None \<Rightarrow> gameMode st | Some m \<Rightarrow> m)
     in if length allCards < 6
        then handleAdminAccess (st\<lparr>alerts := alerts st @ [NeedSixCards]\<rparr>)
        else st\<lparr>gameMode := mode,
                currentPlayer := Player1,
                scores := \<lparr>p1 = 0, p2 = 0\<rparr>,
                cards := buildDeck order1 order2 tmpId allCards,
                flippedCards := [],
                matches := 0,
                moves := 0,
                isWon := False,
                view := Game\<rparr>)"

text \<open>The initial values of the \<open>useState\<close> cells; no timer is pending, no alert shown.\<close>

definition initialApp :: App where
  "initialApp =
    \<lparr>view = Menu, gameMode = Solo, currentPlayer = Player1, scores = \<lparr>p1 = 0, p2 = 0\<rparr>,
     cards = [], flippedCards = [], matches = 0, moves = 0, isWon = False,
     isAdminAuth = False, showPassModal = False, matchedCardId = None,
     timers = [], alerts = []\<rparr>"

text \<open>
  A catalog for concrete runs: six cards, with and without a \<open>points\<close> field, and the
  deck left in catalog order, so that positions \<open>2k\<close> and \<open>2k+1\<close> hold the image
  and the text card of the \<open>k\<close>-th name.
\<close>

definition card0 :: "string \<Rightarrow> int option \<Rightarrow> CardData" where
  "card0 name pts =
    \<lparr>id' = name, image_data = ''data:'', points = pts, author = None,
     appwriteId = None, fileId = None\<rparr>"

definition catalog6 :: "CardData list" where
  "catalog6 = [card0 ''A'' None, card0 ''B'' (Some 20), card0 ''C'' None,
               card0 ''D'' (Some 0), card0 ''E'' None, card0 ''F'' None]"

definition game0 :: "gameMode \<Rightarrow> App" where
  "game0 mode = initGame (Some mode) catalog6 [0..<6] [0..<12] (\<lambda>k. 0) initialApp"

text \<open>\<open>onClick={() => setView('menu')}\<close> of the button that returns to the menu.\<close>

definition returnToMenu :: "App \<Rightarrow> App" where
  "returnToMenu st = st\<lparr>view := Menu\<rparr>"

text \<open>The state a handler leaves behind, whether it returned or raised.\<close>

definition stateOf :: "(error \<times> App) + App \<Rightarrow> App" where
  "stateOf r = (case r of Inl (e, s) \<Rightarrow> s | Inr s \<Rightarrow> s)"

section \<open>Invariants of a session\<close>

text \<open>Every card carries its position as \<open>uniqueId\<close>.\<close>

definition positionsOk :: "App \<Rightarrow> bool" where
  "positionsOk st \<longleftrightarrow> (\<forall>j<length (cards st). uniqueId (cards st ! j) = j)"

text \<open>
  The selection buffer holds at most two distinct positions of the deck, and a card is
  face-up and unmatched exactly when its position is in the buffer.
\<close>

definition selectionOk :: "App \<Rightarrow> bool" where
  "selectionOk st \<longleftrightarrow>
     distinct (flippedCards st) \<and> length (flippedCards st) \<le> 2 \<and>
     (\<forall>u \<in> set (flippedCards st). u < length (cards st)) \<and>
     (\<forall>j<length (cards st).
        (isFlipped (cards st ! j) \<and> \<not> isMatched (cards st ! j)) = (j \<in> set (flippedCards st)))"

text \<open>What a pending callback captured agrees with the state it will run in.\<close>

fun timerOk :: "App \<Rightarrow> timer \<Rightarrow> bool" where
  "timerOk st (MatchHighlight firstId secondId firstCard gm cp m) \<longleftrightarrow>
     flippedCards st = [firstId, secondId] \<and>
     id' (cards st ! firstId) = id' firstCard \<and> id' (cards st ! secondId) = id' firstCard \<and>
     gm = gameMode st \<and> cp = currentPlayer st \<and> m = matches st"
| "timerOk st (MatchResolve firstCard gm cp m) \<longleftrightarrow>
     (\<forall>u \<in> set (flippedCards st). id' (cards st ! u) = id' firstCard) \<and>
     gm = gameMode st \<and> cp = currentPlayer st \<and> m = matches st"
| "timerOk st (NoMatch newFlipped gm) \<longleftrightarrow>
     newFlipped = flippedCards st \<and> gm = gameMode st"

text \<open>Exactly one callback is pending while two cards are selected, none otherwise.\<close>

definition timersOk :: "App \<Rightarrow> bool" where
  "timersOk st \<longleftrightarrow>
     (if length (flippedCards st) = 2
      then (\<exists>d t. timers st = [(d, t)] \<and> timerOk st t)
      else timers st = [])"

text \<open>
  The deck has 12 cards, every counted match has matched at least two of them, the win
  flag is set exactly at 6 matches, and a solo game stays with player 1 and never
  credits player 2.
\<close>

definition progressOk :: "App \<Rightarrow> bool" where
  "progressOk st \<longleftrightarrow>
     length (cards st) = 12 \<and>
     2 * matches st \<le> length (filter isMatched (cards st)) \<and>
     isWon st = (matches st = 6) \<and>
     (gameMode st = Solo \<longrightarrow> currentPlayer st = Player1 \<and> p2 (scores st) = 0)"

definition sessionInv :: "App \<Rightarrow> bool" where
  "sessionInv st \<longleftrightarrow> positionsOk st \<and> selectionOk st \<and> timersOk st \<and> progressOk st"

text \<open>
  A catalog in which one name occurs twice, as the hosted backend can return it: it files
  every upload under a fresh document id and does not compare the names.
\<close>

definition catalogDup :: "CardData list" where
  "catalogDup = [card0 ''A'' (Some 10), card0 ''A'' (Some 20), card0 ''C'' (Some 10),
                 card0 ''D'' (Some 10), card0 ''E'' (Some 10), card0 ''F'' (Some 10)]"

text \<open>What makes a playing piece: the name it shows and its variant.\<close>

definition cardKey :: "GameCard \<Rightarrow> string \<times> cardType" where
  "cardKey c = (id' c, cardType c)"


text \<open>
  States of concrete sessions on the deck of \<open>game0\<close>: a two-player game after player 1
  has mismatched and player 2 has turned the image card of B (20 points); a game after one
  flip; a solo game after the pair A has been matched; and a restart (deck in reverse
  order) right after the pair A was selected, while its highlight callback is pending.
\<close>

definition afterMismatch :: App where
  "afterMismatch = stateOf (run [Click 0, Click 4, TimerFires 0, Click 2] (game0 Multiplayer))"

definition afterFirstFlip :: "gameMode \<Rightarrow> nat \<Rightarrow> App" where
  "afterFirstFlip mode i = stateOf (run [Click i] (game0 mode))"

definition afterFirstMatch :: App where
  "afterFirstMatch = stateOf (run [Click 0, Click 1, TimerFires 0, TimerFires 0] (game0 Solo))"

definition staleRestart :: App where
  "staleRestart = initGame None catalog6 [0..<6] (rev [0..<12]) (\<lambda>k. 0)
                    (stateOf (run [Click 0, Click 1] (game0 Solo)))"

text \<open>A two-player game in which the pair A is highlighted and its match callback is pending.\<close>

definition pendingResolve :: App where
  "pendingResolve = stateOf (run [Click 0, Click 1, TimerFires 0] (game0 Multiplayer))"





section \<open>Rejected flips\<close>

text \<open>
  C1: a flip is a no-op (the whole state, with deck, selection buffer, scores, moves and
  matches, is returned as it was) whenever two cards are already pending, or the clicked
  card is already face-up, or it is already matched. The test for two pending cards is in
  \<open>handleCardClick\<close> as well, for every id; the tests for a face-up and a matched card
  are those of the \<open>Card\<close> component.
\<close>

theorem flip_rejected_noop:
  "(length (flippedCards st) = 2 \<longrightarrow> handleCardClick uid st = Inr st) \<and>
   (length (flippedCards st) = 2 \<or> isFlipped (cards st ! i) \<or> isMatched (cards st ! i)
      \<longrightarrow> cardOnClick i st = Inr st)"
  by (auto simp: handleCardClick_def cardOnClick_def Let_def)

theorem flip_rejected_noop_witness:
  "isFlipped (cards (stateOf (run [Click 0] (game0 Solo))) ! 0) \<and>
   cardOnClick 0 (stateOf (run [Click 0] (game0 Solo))) =
     Inr (stateOf (run [Click 0] (game0 Solo)))"
proof -
  have h: "isFlipped (cards (stateOf (run [Click 0] (game0 Solo))) ! 0)"
    by code_simp
  have c: "cardOnClick 0 (stateOf (run [Click 0] (game0 Solo))) =
             Inr (stateOf (run [Click 0] (game0 Solo)))"
    using flip_rejected_noop h by blast
  show ?thesis using h c by (rule conjI)
qed

section \<open>Too few cards in the catalog\<close>

text \<open>
  C4: \<open>initGame\<close> raises the alert that six cards are needed exactly when the fetched
  catalog has fewer than 6 cards. It then starts no game: the state is the old one with
  the alert shown and \<open>handleAdminAccess\<close> applied (the admin view when authenticated,
  the password dialog otherwise). With 6 cards or more it always starts a game: no
  alert, the view is the game, and the session cells are reset around a new deck.
\<close>

theorem initGame_insufficient_iff:
  "(alerts (initGame modeArg allCards order1 order2 tmpId st) = alerts st @ [NeedSixCards])
     = (length allCards < 6) \<and>
   (length allCards < 6 \<longrightarrow>
      initGame modeArg allCards order1 order2 tmpId st =
        (if isAdminAuth st then st\<lparr>view := Admin, alerts := alerts st @ [NeedSixCards]\<rparr>
         else st\<lparr>showPassModal := True, alerts := alerts st @ [NeedSixCards]\<rparr>)) \<and>
   (6 \<le> length allCards \<longrightarrow>
      initGame modeArg allCards order1 order2 tmpId st =
        st\<lparr>view := Game,
           gameMode := (case modeArg of None \<Rightarrow> gameMode st | Some m \<Rightarrow> m),
           currentPlayer := Player1, scores := \<lparr>p1 = 0, p2 = 0\<rparr>,
           cards := buildDeck order1 order2 tmpId allCards,
           flippedCards := [], matches := 0, moves := 0, isWon := False\<rparr>)"
  by (simp add: initGame_def handleAdminAccess_def Let_def)

theorem initGame_insufficient_iff_witness:
  "length (take 5 catalog6) < 6 \<and>
   initGame (Some Solo) (take 5 catalog6) [0..<5] [] (\<lambda>k. 0) initialApp =
     initialApp\<lparr>showPassModal := True, alerts := [NeedSixCards]\<rparr> \<and>
   6 \<le> length catalog6 \<and>
   view (initGame (Some Solo) catalog6 [0..<6] [0..<12] (\<lambda>k. 0) initialApp) = Game \<and>
   alerts (initGame (Some Solo) catalog6 [0..<6] [0..<12] (\<lambda>k. 0) initialApp) = []"
proof -
  have h1: "length (take 5 catalog6) < 6" by (simp add: catalog6_def)
  have h2: "6 \<le> length catalog6" by (simp add: catalog6_def)
  have a: "\<not> isAdminAuth initialApp" "alerts initialApp = []"
    by (simp_all add: initialApp_def)
  have c1: "initGame (Some Solo) (take 5 catalog6) [0..<5] [] (\<lambda>k. 0) initialApp =
              initialApp\<lparr>showPassModal := True, alerts := [NeedSixCards]\<rparr>"
    using initGame_insufficient_iff [of "Some Solo" "take 5 catalog6" "[0..<5]" "[]"
        "\<lambda>k. 0" initialApp] h1 a by simp
  have c2: "view (initGame (Some Solo) catalog6 [0..<6] [0..<12] (\<lambda>k. 0) initialApp) = Game \<and>
            alerts (initGame (Some Solo) catalog6 [0..<6] [0..<12] (\<lambda>k. 0) initialApp) = []"
    using initGame_insufficient_iff [of "Some Solo" catalog6 "[0..<6]" "[0..<12]"
        "\<lambda>k. 0" initialApp] h2 a by simp
  show ?thesis using h1 h2 c1 c2 by simp
qed

section \<open>The deck\<close>

lemma randomSort_mset:
  assumes "mset order = mset [0..<length xs]"
  shows "mset (randomSort order xs) = mset xs"
proof -
  have "mset (randomSort order xs) = image_mset ((!) xs) (mset order)"
    by (simp add: randomSort_def)
  also have "\<dots> = image_mset ((!) xs) (mset [0..<length xs])"
    using assms by simp
  also have "\<dots> = mset (map ((!) xs) [0..<length xs])"
    by simp
  also have "\<dots> = mset xs"
    by (simp only: map_nth)
  finally show ?thesis .
qed

lemma randomSort_length: "length (randomSort order xs) = length order"
  by (simp add: randomSort_def)

lemma pool_keys:
  "map cardKey (concat (map (\<lambda>(k, c). [gameCard c (f k) ImageType, gameCard c (g k) TextType])
                          (enumerate n xs))) =
   concat (map (\<lambda>c. [(id' c, ImageType), (id' c, TextType)]) xs)"
  by (induction xs arbitrary: n) (simp_all add: cardKey_def gameCard_def)

lemma pool_length:
  "length (concat (map (\<lambda>(k, c). [gameCard c (f k) ImageType, gameCard c (g k) TextType])
                          (enumerate n xs))) = 2 * length xs"
  by (induction xs arbitrary: n) simp_all

lemma pool_fresh:
  "c \<in> set (concat (map (\<lambda>(k, c). [gameCard c (f k) ImageType, gameCard c (g k) TextType])
                          (enumerate n xs))) \<Longrightarrow> \<not> isFlipped c \<and> \<not> isMatched c"
  by (induction xs arbitrary: n) (auto simp: gameCard_def)

lemma number_keys:
  "map cardKey (map (\<lambda>(index, c). c\<lparr>uniqueId := index\<rparr>) (enumerate n xs)) = map cardKey xs"
  by (induction xs arbitrary: n) (simp_all add: cardKey_def)

lemma number_nth:
  "i < length xs \<Longrightarrow>
   map (\<lambda>(index, c). c\<lparr>uniqueId := index\<rparr>) (enumerate n xs) ! i = (xs ! i)\<lparr>uniqueId := n + i\<rparr>"
  by (simp add: nth_enumerate_eq)

lemma count_pair_keys:
  "count (mset (concat (map (\<lambda>c. [(id' c, ImageType), (id' c, TextType)]) xs))) (x, ty) =
   count (mset (map id' xs)) x"
  by (induction xs) (cases ty; simp)+


lemma deck_facts:
  assumes len: "6 \<le> length allCards"
      and o1: "mset order1 = mset [0..<length allCards]"
      and o2: "mset order2 = mset [0..<12]"
  shows "length (take 6 (randomSort order1 allCards)) = 6"
    and "mset (map cardKey (buildDeck order1 order2 tmpId allCards)) =
         mset (concat (map (\<lambda>c. [(id' c, ImageType), (id' c, TextType)])
                        (take 6 (randomSort order1 allCards))))"
    and "length (buildDeck order1 order2 tmpId allCards) = 12"
    and "\<forall>i<12. uniqueId (buildDeck order1 order2 tmpId allCards ! i) = i"
    and "\<forall>c \<in> set (buildDeck order1 order2 tmpId allCards). \<not> isFlipped c \<and> \<not> isMatched c"
proof -
  let ?sel = "take 6 (randomSort order1 allCards)"
  let ?deck = "buildDeck order1 order2 tmpId allCards"
  let ?pool = "concat (map (\<lambda>(k, c). [gameCard c (tmpId (2 * k)) ImageType,
                                       gameCard c (tmpId (2 * k + 1)) TextType])
                        (enumerate 0 ?sel))"
  have deck: "?deck = map (\<lambda>(index, c). c\<lparr>uniqueId := index\<rparr>)
                        (enumerate 0 (randomSort order2 ?pool))"
    by (simp add: buildDeck_def Let_def)
  have "length order1 = length allCards"
    using o1 mset_eq_length by fastforce
  then show sel: "length ?sel = 6"
    using len by (simp add: randomSort_length)
  have pl: "length ?pool = 12"
    using sel by (simp only: pool_length)
  have o2': "mset order2 = mset [0..<length ?pool]"
    using o2 by (simp only: pl)
  have l2: "length order2 = 12"
    using o2 mset_eq_length by fastforce
  have "mset (map cardKey ?deck) = mset (map cardKey (randomSort order2 ?pool))"
    by (simp only: deck number_keys)
  also have "\<dots> = image_mset cardKey (mset ?pool)"
    using randomSort_mset [OF o2'] by simp
  also have "\<dots> = mset (map cardKey ?pool)"
    by simp
  finally show "mset (map cardKey ?deck) =
         mset (concat (map (\<lambda>c. [(id' c, ImageType), (id' c, TextType)]) ?sel))"
    by (simp only: pool_keys)
  show dl: "length ?deck = 12"
    using l2 by (simp add: deck randomSort_length)
  show "\<forall>i<12. uniqueId (?deck ! i) = i"
  proof (intro allI impI)
    fix i :: nat assume "i < 12"
    then have "i < length (randomSort order2 ?pool)"
      using l2 by (simp add: randomSort_length)
    then have "?deck ! i = (randomSort order2 ?pool ! i)\<lparr>uniqueId := 0 + i\<rparr>"
      by (simp only: deck number_nth)
    then show "uniqueId (?deck ! i) = i" by simp
  qed
  have "set (randomSort order2 ?pool) = set ?pool"
    using randomSort_mset [OF o2'] mset_eq_setD by blast
  then have fresh: "\<forall>c \<in> set (randomSort order2 ?pool). \<not> isFlipped c \<and> \<not> isMatched c"
    using pool_fresh [of _ "\<lambda>k. tmpId (2 * k)" "\<lambda>k. tmpId (2 * k + 1)" 0 ?sel] by blast
  show "\<forall>c \<in> set ?deck. \<not> isFlipped c \<and> \<not> isMatched c"
  proof
    fix c assume "c \<in> set ?deck"
    then obtain i where i: "i < length ?deck" "c = ?deck ! i"
      by (auto simp: in_set_conv_nth)
    then have il: "i < length (randomSort order2 ?pool)"
      using dl l2 by (simp add: randomSort_length)
    then have "?deck ! i = (randomSort order2 ?pool ! i)\<lparr>uniqueId := 0 + i\<rparr>"
      by (simp only: deck number_nth)
    moreover have "randomSort order2 ?pool ! i \<in> set (randomSort order2 ?pool)"
      using il by simp
    ultimately show "\<not> isFlipped c \<and> \<not> isMatched c"
      using fresh i(2) by auto
  qed
qed

lemma selected_distinct:
  assumes "distinct (map id' allCards)" "mset order1 = mset [0..<length allCards]"
  shows "distinct (map id' (take 6 (randomSort order1 allCards)))"
proof -
  have "mset (map id' (randomSort order1 allCards)) = mset (map id' allCards)"
    using randomSort_mset [OF assms(2)] by simp
  then have "distinct (map id' (randomSort order1 allCards))"
    using assms(1) mset_eq_imp_distinct_iff by blast
  then show ?thesis
    by (simp add: take_map [symmetric] distinct_take del: take_map)
qed

lemma filter_key_count:
  "length (filter (\<lambda>c. id' c = x \<and> cardType c = ty) deck) = count (mset (map cardKey deck)) (x, ty)"
  by (induction deck) (auto simp: cardKey_def)

text \<open>
  C5, as the code has it: from a catalog of at least 6 cards with pairwise distinct names,
  the deck has exactly 12 cards and exactly 6 distinct names, every name of the deck is
  on exactly one image card and exactly one text card, and the \<open>uniqueId\<close> of each card
  is its position 0..11.
\<close>

theorem buildDeck_pairs:
  assumes len: "6 \<le> length allCards"
      and dist: "distinct (map id' allCards)"
      and o1: "mset order1 = mset [0..<length allCards]"
      and o2: "mset order2 = mset [0..<12]"
  shows "length (buildDeck order1 order2 tmpId allCards) = 12 \<and>
         card (id' ` set (buildDeck order1 order2 tmpId allCards)) = 6 \<and>
         (\<forall>x \<in> id' ` set (buildDeck order1 order2 tmpId allCards).
            length (filter (\<lambda>c. id' c = x \<and> cardType c = ImageType)
                      (buildDeck order1 order2 tmpId allCards)) = 1 \<and>
            length (filter (\<lambda>c. id' c = x \<and> cardType c = TextType)
                      (buildDeck order1 order2 tmpId allCards)) = 1) \<and>
         (\<forall>i<12. uniqueId (buildDeck order1 order2 tmpId allCards ! i) = i)"
proof -
  let ?deck = "buildDeck order1 order2 tmpId allCards"
  let ?sel = "take 6 (randomSort order1 allCards)"
  note f = deck_facts [OF len o1 o2]
  have sd: "distinct (map id' ?sel)"
    using selected_distinct [OF dist o1] .
  have cnt: "length (filter (\<lambda>c. id' c = x \<and> cardType c = ty) ?deck) =
             count (mset (map id' ?sel)) x" for x ty
    by (simp only: filter_key_count f(2) count_pair_keys)
  have ids: "id' ` set ?deck = set (map id' ?sel)"
  proof -
    have "set (map cardKey ?deck) =
          set (concat (map (\<lambda>c. [(id' c, ImageType), (id' c, TextType)]) ?sel))"
      using f(2) mset_eq_setD by blast
    then have "fst ` set (map cardKey ?deck) =
          fst ` set (concat (map (\<lambda>c. [(id' c, ImageType), (id' c, TextType)]) ?sel))"
      by simp
    moreover have "fst ` set (map cardKey ?deck) = id' ` set ?deck"
      by (force simp: cardKey_def)
    moreover have "fst ` set (concat (map (\<lambda>c. [(id' c, ImageType), (id' c, TextType)]) ?sel))
          = set (map id' ?sel)"
      by force
    ultimately show ?thesis by simp
  qed
  have "card (id' ` set ?deck) = length (map id' ?sel)"
    using sd by (simp only: ids distinct_card)
  then have c6: "card (id' ` set ?deck) = 6"
    using f(1) by simp
  have one: "\<forall>x \<in> id' ` set ?deck.
               length (filter (\<lambda>c. id' c = x \<and> cardType c = ImageType) ?deck) = 1 \<and>
               length (filter (\<lambda>c. id' c = x \<and> cardType c = TextType) ?deck) = 1"
  proof
    fix x assume "x \<in> id' ` set ?deck"
    then have "x \<in> set (map id' ?sel)" using ids by simp
    then have "count (mset (map id' ?sel)) x = 1"
      using sd by (simp only: distinct_count_atmost_1) simp
    then show "length (filter (\<lambda>c. id' c = x \<and> cardType c = ImageType) ?deck) = 1 \<and>
               length (filter (\<lambda>c. id' c = x \<and> cardType c = TextType) ?deck) = 1"
      by (simp only: cnt)
  qed
  show ?thesis using f(3) c6 one f(4) by blast
qed

theorem buildDeck_pairs_witness:
  "6 \<le> length catalog6 \<and> distinct (map id' catalog6) \<and>
   mset (rev [0..<6]) = mset [0..<length catalog6] \<and>
   mset (rev [0..<12]) = mset [0..<12] \<and>
   length (buildDeck (rev [0..<6]) (rev [0..<12]) (\<lambda>k. k) catalog6) = 12 \<and>
   card (id' ` set (buildDeck (rev [0..<6]) (rev [0..<12]) (\<lambda>k. k) catalog6)) = 6 \<and>
   length (filter (\<lambda>c. id' c = ''B'' \<and> cardType c = ImageType)
             (buildDeck (rev [0..<6]) (rev [0..<12]) (\<lambda>k. k) catalog6)) = 1 \<and>
   uniqueId (buildDeck (rev [0..<6]) (rev [0..<12]) (\<lambda>k. k) catalog6 ! 7) = 7"
proof -
  have h1: "6 \<le> length catalog6" by (simp add: catalog6_def)
  have h2: "distinct (map id' catalog6)" by (simp add: catalog6_def card0_def)
  have "length catalog6 = 6" by (simp add: catalog6_def)
  then have h3: "mset (rev [0..<6]) = mset [0..<length catalog6]" by (simp only: mset_rev)
  have h4: "mset (rev [0..<12]) = mset [0..<12]" by (simp only: mset_rev)
  have b: "''B'' \<in> id' ` set (buildDeck (rev [0..<6]) (rev [0..<12]) (\<lambda>k. k) catalog6)"
    by code_simp
  note t = buildDeck_pairs [OF h1 h2 h3 h4, where tmpId = "\<lambda>k. k"]
  have c3: "length (filter (\<lambda>c. id' c = ''B'' \<and> cardType c = ImageType)
             (buildDeck (rev [0..<6]) (rev [0..<12]) (\<lambda>k. k) catalog6)) = 1"
    using t b by blast
  have c4: "uniqueId (buildDeck (rev [0..<6]) (rev [0..<12]) (\<lambda>k. k) catalog6 ! 7) = 7"
    using t by simp
  show ?thesis using h1 h2 h3 h4 t c3 c4 by blast
qed

text \<open>
  C5 as stated, for every catalog of at least 6 cards, fails: \<open>initGame\<close> never
  compares names, so with a name that occurs twice in the catalog the deck has 5 distinct
  names and two image cards of one name.
\<close>

theorem buildDeck_duplicate_ids:
  "6 \<le> length catalogDup \<and>
   card (id' ` set (buildDeck [0..<6] [0..<12] (\<lambda>k. 0) catalogDup)) = 5 \<and>
   length (filter (\<lambda>c. id' c = ''A'' \<and> cardType c = ImageType)
             (buildDeck [0..<6] [0..<12] (\<lambda>k. 0) catalogDup)) = 2"
  by code_simp

section \<open>A click keeps the session invariant\<close>

lemma findIndex_first:
  "k < length xs \<Longrightarrow> P (xs ! k) \<Longrightarrow> (\<forall>j<k. \<not> P (xs ! j)) \<Longrightarrow> findIndex P xs = Some k"
proof (induction xs arbitrary: k)
  case Nil
  then show ?case by simp
next
  case (Cons x xs)
  show ?case
  proof (cases k)
    case 0
    with Cons.prems show ?thesis by simp
  next
    case (Suc k')
    with Cons.prems have "\<not> P x" by auto
    moreover have "findIndex P xs = Some k'"
      using Cons.prems Suc by (intro Cons.IH) auto
    ultimately show ?thesis using Suc by simp
  qed
qed

lemma findIndex_position:
  assumes "\<forall>j<length cs. uniqueId (cs ! j) = j" "i < length cs"
  shows "findIndex (\<lambda>c. uniqueId c = i) cs = Some i"
  using assms by (intro findIndex_first) auto

lemma find_position:
  assumes "\<forall>j<length cs. uniqueId (cs ! j) = j" "i < length cs"
  shows "find (\<lambda>c. uniqueId c = i) cs = Some (cs ! i)"
  using assms by (simp add: find_Some_iff) (metis nat_neq_iff order_less_trans)

lemma nth_flip:
  "j < length cs \<Longrightarrow>
   cs[i := (cs ! i)\<lparr>isFlipped := True\<rparr>] ! j =
     (if i = j then (cs ! j)\<lparr>isFlipped := True\<rparr> else cs ! j)"
  by (cases "i < length cs") (auto simp: nth_list_update)

lemma flip_positions:
  assumes "\<forall>j<length cs. uniqueId (cs ! j) = j"
  shows "\<forall>j<length (cs[i := (cs ! i)\<lparr>isFlipped := True\<rparr>]).
           uniqueId (cs[i := (cs ! i)\<lparr>isFlipped := True\<rparr>] ! j) = j"
  using assms by (simp add: nth_flip)

lemma handleCardClick_first:
  assumes "positionsOk st" "i < length (cards st)" "flippedCards st = []"
  shows "handleCardClick i st =
           Inr (st\<lparr>cards := (cards st)[i := (cards st ! i)\<lparr>isFlipped := True\<rparr>],
                   flippedCards := [i]\<rparr>)"
  using assms findIndex_position [of "cards st" i]
  by (simp add: handleCardClick_def positionsOk_def Let_def)

lemma handleCardClick_second:
  assumes pos: "positionsOk st" and i: "i < length (cards st)"
      and fl: "flippedCards st = [a]" and a: "a < length (cards st)"
  shows "handleCardClick i st =
           Inr (st\<lparr>cards := (cards st)[i := (cards st ! i)\<lparr>isFlipped := True\<rparr>],
                   flippedCards := [a, i],
                   moves := moves st + 1,
                   timers := timers st @
                     [if id' (cards st ! a) = id' (cards st ! i)
                      then (600, MatchHighlight a i
                                   ((cards st)[i := (cards st ! i)\<lparr>isFlipped := True\<rparr>] ! a)
                                   (gameMode st) (currentPlayer st) (matches st))
                      else (1000, NoMatch [a, i] (gameMode st))]\<rparr>)"
proof -
  let ?cs = "(cards st)[i := (cards st ! i)\<lparr>isFlipped := True\<rparr>]"
  have p: "\<forall>j<length (cards st). uniqueId (cards st ! j) = j"
    using pos by (simp add: positionsOk_def)
  have p': "\<forall>j<length ?cs. uniqueId (?cs ! j) = j"
    using flip_positions [OF p] .
  have fi: "findIndex (\<lambda>c. uniqueId c = i) (cards st) = Some i"
    using findIndex_position [OF p i] .
  have f1: "find (\<lambda>c. uniqueId c = a) ?cs = Some (?cs ! a)"
    using find_position [OF p'] a by simp
  have f2: "find (\<lambda>c. uniqueId c = i) ?cs = Some (?cs ! i)"
    using find_position [OF p'] i by simp
  have ids: "id' (?cs ! a) = id' (cards st ! a)" "id' (?cs ! i) = id' (cards st ! i)"
    using a i by (simp_all add: nth_flip)
  show ?thesis
    using fl fi f1 f2 ids by (simp add: handleCardClick_def Let_def)
qed


lemma matched_count:
  "length (filter isMatched cs) = card {j. j < length cs \<and> isMatched (cs ! j)}"
  by (rule length_filter_conv_card)

lemma flip_matched_count:
  "length (filter isMatched (cs[i := (cs ! i)\<lparr>isFlipped := True\<rparr>])) =
   length (filter isMatched cs)"
proof -
  have "{j. j < length cs \<and> isMatched (cs[i := (cs ! i)\<lparr>isFlipped := True\<rparr>] ! j)} =
        {j. j < length cs \<and> isMatched (cs ! j)}"
    by (auto simp: nth_flip split: if_splits)
  then show ?thesis by (simp add: matched_count)
qed

lemma cardOnClick_accepted:
  assumes "positionsOk st" "i < length (cards st)" "length (flippedCards st) \<noteq> 2"
          "\<not> isFlipped (cards st ! i)" "\<not> isMatched (cards st ! i)"
  shows "cardOnClick i st = handleCardClick i st"
  using assms by (simp add: cardOnClick_def positionsOk_def)

lemma cardOnClick_rejected:
  assumes "\<not> (i < length (cards st) \<and> length (flippedCards st) \<noteq> 2 \<and>
              \<not> isFlipped (cards st ! i) \<and> \<not> isMatched (cards st ! i))"
  shows "cardOnClick i st = Inr st"
  using assms by (auto simp: cardOnClick_def)

lemma sessionInv_click:
  assumes inv: "sessionInv st"
  shows "\<exists>s. cardOnClick i st = Inr s \<and> sessionInv s"
proof (cases "i < length (cards st) \<and> length (flippedCards st) \<noteq> 2 \<and>
              \<not> isFlipped (cards st ! i) \<and> \<not> isMatched (cards st ! i)")
  case False
  then show ?thesis using inv cardOnClick_rejected by blast
next
  case True
  let ?cs = "(cards st)[i := (cards st ! i)\<lparr>isFlipped := True\<rparr>]"
  have pos: "positionsOk st" and sel: "selectionOk st" and tim: "timersOk st"
    and prog: "progressOk st"
    using inv by (simp_all add: sessionInv_def)
  have click: "cardOnClick i st = handleCardClick i st"
    using cardOnClick_accepted [OF pos] True by blast
  have i: "i < length (cards st)" using True by simp
  have notin: "i \<notin> set (flippedCards st)"
    using sel True by (auto simp: selectionOk_def)
  have tm: "timers st = []"
    using tim True by (simp add: timersOk_def)
  have len: "length (flippedCards st) \<le> 1"
    using sel True by (simp add: selectionOk_def)
  have pcs: "\<forall>j<length ?cs. uniqueId (?cs ! j) = j"
    using pos flip_positions by (simp add: positionsOk_def)
  show ?thesis
  proof (cases "flippedCards st")
    case Nil
    let ?s = "st\<lparr>cards := ?cs, flippedCards := [i]\<rparr>"
    have r: "cardOnClick i st = Inr ?s"
      using click handleCardClick_first [OF pos i Nil] by simp
    have "positionsOk ?s" using pcs by (simp add: positionsOk_def)
    moreover have "selectionOk ?s"
      using sel True Nil by (auto simp: selectionOk_def nth_flip)
    moreover have "timersOk ?s" using tm by (simp add: timersOk_def)
    moreover have "progressOk ?s"
      using prog by (simp add: progressOk_def flip_matched_count)
    ultimately show ?thesis using r by (simp add: sessionInv_def)
  next
    case (Cons a rest)
    with len have fl: "flippedCards st = [a]" by simp
    have a: "a < length (cards st)" using sel fl by (simp add: selectionOk_def)
    have ai: "a \<noteq> i" using notin fl by simp
    let ?t = "if id' (cards st ! a) = id' (cards st ! i)
              then (600, MatchHighlight a i (?cs ! a) (gameMode st) (currentPlayer st) (matches st))
              else (1000, NoMatch [a, i] (gameMode st))"
    let ?s = "st\<lparr>cards := ?cs, flippedCards := [a, i], moves := moves st + 1,
                 timers := timers st @ [?t]\<rparr>"
    have r: "cardOnClick i st = Inr ?s"
      using click handleCardClick_second [OF pos i fl a] by simp
    have "positionsOk ?s" using pcs by (simp add: positionsOk_def)
    moreover have "selectionOk ?s"
      using sel True fl ai by (auto simp: selectionOk_def nth_flip)
    moreover have "timersOk ?s"
      using tm a i ai by (simp add: timersOk_def nth_flip)
    moreover have "progressOk ?s"
      using prog by (simp add: progressOk_def flip_matched_count)
    ultimately show ?thesis using r by (simp add: sessionInv_def)
  qed
qed

section \<open>A timer callback keeps the session invariant\<close>

lemma fireTimer_single:
  "timers st = [(d, t)] \<Longrightarrow> fireTimer 0 st = runTimer t (st\<lparr>timers := []\<rparr>)"
  by (simp add: fireTimer_def)

lemma fireTimer_beyond:
  "length (timers st) \<le> k \<Longrightarrow> fireTimer k st = st"
  by (simp add: fireTimer_def)

lemma map_matched_count:
  "(\<And>c. isMatched (f c) = isMatched c) \<Longrightarrow>
   length (filter isMatched (map f cs)) = length (filter isMatched cs)"
  by (induction cs) simp_all

lemma sessionInv_highlight:
  assumes inv: "sessionInv st" and tm: "timers st = [(d, MatchHighlight a b fc gm cp m)]"
  shows "sessionInv (runTimer (MatchHighlight a b fc gm cp m) (st\<lparr>timers := []\<rparr>))"
proof -
  let ?cs = "map (\<lambda>c. if uniqueId c = a \<or> uniqueId c = b
                        then c\<lparr>isHighlighting := Some True\<rparr> else c) (cards st)"
  let ?s = "runTimer (MatchHighlight a b fc gm cp m) (st\<lparr>timers := []\<rparr>)"
  have pos: "positionsOk st" and sel: "selectionOk st" and tim: "timersOk st"
    and prog: "progressOk st"
    using inv by (simp_all add: sessionInv_def)
  have two: "length (flippedCards st) = 2"
    using tim tm by (auto simp: timersOk_def split: if_splits)
  then have ok: "timerOk st (MatchHighlight a b fc gm cp m)"
    using tim tm by (simp add: timersOk_def)
  have fm: "length (filter isMatched ?cs) = length (filter isMatched (cards st))"
    by (rule map_matched_count) simp
  have "positionsOk ?s" using pos by (simp add: positionsOk_def)
  moreover have "selectionOk ?s" using sel by (simp add: selectionOk_def)
  moreover have "timersOk ?s"
    using ok sel by (simp add: timersOk_def selectionOk_def)
  moreover have "progressOk ?s"
    using prog fm by (simp add: progressOk_def)
  ultimately show ?thesis by (simp add: sessionInv_def)
qed


lemma sessionInv_nomatch:
  assumes inv: "sessionInv st" and tm: "timers st = [(d, NoMatch nf gm)]"
  shows "sessionInv (runTimer (NoMatch nf gm) (st\<lparr>timers := []\<rparr>))"
proof -
  let ?cs = "map (\<lambda>c. if uniqueId c \<in> set nf then c\<lparr>isFlipped := False\<rparr> else c) (cards st)"
  let ?s = "runTimer (NoMatch nf gm) (st\<lparr>timers := []\<rparr>)"
  have pos: "positionsOk st" and sel: "selectionOk st" and tim: "timersOk st"
    and prog: "progressOk st"
    using inv by (simp_all add: sessionInv_def)
  have two: "length (flippedCards st) = 2"
    using tim tm by (auto simp: timersOk_def split: if_splits)
  then have ok: "nf = flippedCards st" "gm = gameMode st"
    using tim tm by (simp_all add: timersOk_def)
  have fm: "length (filter isMatched ?cs) = length (filter isMatched (cards st))"
    by (rule map_matched_count) simp
  have "positionsOk ?s" using pos by (simp add: positionsOk_def)
  moreover have "selectionOk ?s"
    using sel pos ok by (auto simp: selectionOk_def positionsOk_def)
  moreover have "timersOk ?s" by (simp add: timersOk_def)
  moreover have "progressOk ?s"
    using prog ok fm by (auto simp: progressOk_def)
  ultimately show ?thesis by (simp add: sessionInv_def)
qed

lemma sessionInv_resolve:
  assumes inv: "sessionInv st" and tm: "timers st = [(d, MatchResolve fc gm cp m)]"
  shows "sessionInv (runTimer (MatchResolve fc gm cp m) (st\<lparr>timers := []\<rparr>))"
proof -
  let ?f = "\<lambda>c. if id' c = id' fc then c\<lparr>isMatched := True, isHighlighting := Some False\<rparr> else c"
  let ?cs = "map ?f (cards st)"
  let ?s = "runTimer (MatchResolve fc gm cp m) (st\<lparr>timers := []\<rparr>)"
  let ?old = "{j. j < length (cards st) \<and> isMatched (cards st ! j)}"
  let ?new = "{j. j < length ?cs \<and> isMatched (?cs ! j)}"
  have pos: "positionsOk st" and sel: "selectionOk st" and tim: "timersOk st"
    and prog: "progressOk st"
    using inv by (simp_all add: sessionInv_def)
  have two: "length (flippedCards st) = 2"
    using tim tm by (auto simp: timersOk_def split: if_splits)
  then have ok: "\<forall>u \<in> set (flippedCards st). id' (cards st ! u) = id' fc"
      "gm = gameMode st" "cp = currentPlayer st" "m = matches st"
    using tim tm by (simp_all add: timersOk_def)
  obtain a b where fl: "flippedCards st = [a, b]"
    using two by (cases "flippedCards st"; cases "tl (flippedCards st)") auto
  have ab: "a \<noteq> b" "a < length (cards st)" "b < length (cards st)"
    using sel fl by (simp_all add: selectionOk_def)
  have un: "\<not> isMatched (cards st ! a)" "\<not> isMatched (cards st ! b)"
    using sel fl ab by (auto simp: selectionOk_def)
  have ida: "id' (cards st ! a) = id' fc" "id' (cards st ! b) = id' fc"
    using ok fl by simp_all
  have sub: "?old \<union> {a, b} \<subseteq> ?new"
    using ab ida by auto
  have "card (?old \<union> {a, b}) = card ?old + 2"
    using un ab by (simp add: card_insert_if)
  moreover have "card (?old \<union> {a, b}) \<le> card ?new"
    using sub by (intro card_mono) auto
  ultimately have cnt: "length (filter isMatched (cards st)) + 2 \<le> length (filter isMatched ?cs)"
    by (simp only: matched_count)
  have "length (filter isMatched ?cs) \<le> length ?cs" by (rule length_filter_le)
  also have "length ?cs = 12" using prog by (simp add: progressOk_def)
  finally have le12: "length (filter isMatched ?cs) \<le> 12" .
  have m2: "2 * matches st \<le> length (filter isMatched (cards st))"
    using prog by (simp add: progressOk_def)
  from cnt le12 m2 have bound: "matches st + 1 \<le> 6" by linarith
  have "positionsOk ?s" using pos by (simp add: positionsOk_def)
  moreover have "selectionOk ?s"
  proof -
    have "isFlipped (?cs ! j) \<longrightarrow> isMatched (?cs ! j)" if "j < length (cards st)" for j
    proof (cases "j \<in> set (flippedCards st)")
      case True
      then show ?thesis using ok that by simp
    next
      case False
      then show ?thesis using sel that by (auto simp: selectionOk_def)
    qed
    then show ?thesis by (simp add: selectionOk_def)
  qed
  moreover have "timersOk ?s" by (simp add: timersOk_def)
  moreover have "progressOk ?s"
    using prog ok cnt bound by (auto simp: progressOk_def)
  ultimately show ?thesis by (simp add: sessionInv_def)
qed

lemma sessionInv_fire:
  assumes inv: "sessionInv st"
  shows "sessionInv (fireTimer k st)"
proof (cases "k < length (timers st)")
  case False
  then show ?thesis using inv by (simp add: fireTimer_beyond)
next
  case True
  then obtain d t where tm: "timers st = [(d, t)]" and k: "k = 0"
    using inv by (auto simp: sessionInv_def timersOk_def split: if_splits)
  have "fireTimer k st = runTimer t (st\<lparr>timers := []\<rparr>)"
    using fireTimer_single [OF tm] k by simp
  then show ?thesis
    using inv tm sessionInv_highlight sessionInv_resolve sessionInv_nomatch
    by (cases t) simp_all
qed

lemma sessionInv_run:
  "sessionInv st \<Longrightarrow> \<exists>s. run evs st = Inr s \<and> sessionInv s"
proof (induction evs arbitrary: st)
  case Nil
  then show ?case by simp
next
  case (Cons e evs)
  show ?case
  proof (cases e)
    case (Click i)
    obtain s where "cardOnClick i st = Inr s" "sessionInv s"
      using sessionInv_click [OF Cons.prems] by blast
    then show ?thesis using Cons.IH Click by simp
  next
    case (TimerFires k)
    then show ?thesis using Cons.IH sessionInv_fire [OF Cons.prems] by simp
  qed
qed

section \<open>Sessions from a fresh deck\<close>

lemma sessionInv_initGame:
  assumes len: "6 \<le> length allCards"
      and o1: "mset order1 = mset [0..<length allCards]"
      and o2: "mset order2 = mset [0..<12]"
      and tm: "timers st = []"
  shows "sessionInv (initGame modeArg allCards order1 order2 tmpId st)"
proof -
  let ?deck = "buildDeck order1 order2 tmpId allCards"
  let ?s = "initGame modeArg allCards order1 order2 tmpId st"
  note f = deck_facts [OF len o1 o2]
  have fresh: "\<forall>c \<in> set ?deck. \<not> isFlipped c \<and> \<not> isMatched c"
    using f(5) .
  then have nth: "\<forall>j<length ?deck. \<not> isFlipped (?deck ! j) \<and> \<not> isMatched (?deck ! j)"
    by simp
  have nom: "filter isMatched ?deck = []"
    using fresh by (simp add: filter_empty_conv)
  have s: "cards ?s = ?deck" "flippedCards ?s = []" "timers ?s = []" "matches ?s = 0"
    "isWon ?s = False" "currentPlayer ?s = Player1" "p2 (scores ?s) = 0"
    using len tm by (simp_all add: initGame_def Let_def)
  have "positionsOk ?s" using f(3,4) by (simp add: positionsOk_def s)
  moreover have "selectionOk ?s" using nth by (simp add: selectionOk_def s)
  moreover have "timersOk ?s" by (simp add: timersOk_def s)
  moreover have "progressOk ?s" using f(3) nom by (simp add: progressOk_def s)
  ultimately show ?thesis by (simp add: sessionInv_def)
qed











section \<open>Resolving a pair\<close>

lemma cardPoints_flip: "cardPoints (c\<lparr>isFlipped := True\<rparr>) = cardPoints c"
  by (simp add: cardPoints_def)

lemma second_click:
  assumes pos: "positionsOk st" and fl: "flippedCards st = [a]"
      and a: "a < length (cards st)" and i: "i < length (cards st)"
      and up: "\<not> isFlipped (cards st ! i)" "\<not> isMatched (cards st ! i)"
  shows "cardOnClick i st =
           Inr (st\<lparr>cards := (cards st)[i := (cards st ! i)\<lparr>isFlipped := True\<rparr>],
                   flippedCards := [a, i],
                   moves := moves st + 1,
                   timers := timers st @
                     [if id' (cards st ! a) = id' (cards st ! i)
                      then (600, MatchHighlight a i
                                   ((cards st)[i := (cards st ! i)\<lparr>isFlipped := True\<rparr>] ! a)
                                   (gameMode st) (currentPlayer st) (matches st))
                      else (1000, NoMatch [a, i] (gameMode st))]\<rparr>)"
proof -
  have "length (flippedCards st) \<noteq> 2" using fl by simp
  then have "cardOnClick i st = handleCardClick i st"
    using cardOnClick_accepted [OF pos i] up by blast
  then show ?thesis using handleCardClick_second [OF pos i fl a] by simp
qed

lemma match_resolution:
  assumes pos: "positionsOk st" and tm: "timers st = []" and fl: "flippedCards st = [a]"
      and a: "a < length (cards st)" and i: "i < length (cards st)"
      and up: "\<not> isFlipped (cards st ! i)" "\<not> isMatched (cards st ! i)"
      and same: "id' (cards st ! a) = id' (cards st ! i)"
  shows "\<exists>s. run [Click i, TimerFires 0, TimerFires 0] st = Inr s \<and>
             matches s = matches st + 1 \<and> moves s = moves st + 1 \<and>
             scores s = (if gameMode st = Solo \<or> currentPlayer st = Player1
                         then (scores st)\<lparr>p1 := p1 (scores st) + cardPoints (cards st ! a)\<rparr>
                         else (scores st)\<lparr>p2 := p2 (scores st) + cardPoints (cards st ! a)\<rparr>) \<and>
             currentPlayer s = currentPlayer st \<and> gameMode s = gameMode st \<and>
             flippedCards s = [] \<and> timers s = [] \<and>
             isWon s = (isWon st \<or> matches st + 1 = 6) \<and>
             isMatched (cards s ! a) \<and> isMatched (cards s ! i)"
proof -
  let ?cs = "(cards st)[i := (cards st ! i)\<lparr>isFlipped := True\<rparr>]"
  let ?fc = "?cs ! a"
  let ?s1 = "st\<lparr>cards := ?cs, flippedCards := [a, i], moves := moves st + 1,
                timers := [(600, MatchHighlight a i ?fc (gameMode st) (currentPlayer st)
                                   (matches st))]\<rparr>"
  have c1: "cardOnClick i st = Inr ?s1"
    using second_click [OF pos fl a i up] same tm by simp
  have fcid: "id' ?fc = id' (cards st ! a)" and fcp: "cardPoints ?fc = cardPoints (cards st ! a)"
    using a by (simp_all add: nth_flip cardPoints_flip)
  let ?s2 = "fireTimer 0 ?s1"
  let ?s3 = "fireTimer 0 ?s2"
  have r: "run [Click i, TimerFires 0, TimerFires 0] st = Inr ?s3"
    using c1 by simp
  have t2: "timers ?s2 = [(2000, MatchResolve ?fc (gameMode st) (currentPlayer st) (matches st))]"
    by (simp add: fireTimer_def)
  have s2: "matches ?s2 = matches st" "moves ?s2 = moves st + 1" "scores ?s2 = scores st"
      "currentPlayer ?s2 = currentPlayer st" "gameMode ?s2 = gameMode st" "isWon ?s2 = isWon st"
      "length (cards ?s2) = length (cards st)"
      "\<forall>j<length (cards st). id' (cards ?s2 ! j) = id' (cards st ! j)"
    by (simp_all add: fireTimer_def nth_flip)
  have s3: "?s3 = runTimer (MatchResolve ?fc (gameMode st) (currentPlayer st) (matches st))
                    (?s2\<lparr>timers := []\<rparr>)"
    using fireTimer_single [OF t2] .
  have "matches ?s3 = matches st + 1" "moves ?s3 = moves st + 1"
       "scores ?s3 = (if gameMode st = Solo \<or> currentPlayer st = Player1
                         then (scores st)\<lparr>p1 := p1 (scores st) + cardPoints (cards st ! a)\<rparr>
                         else (scores st)\<lparr>p2 := p2 (scores st) + cardPoints (cards st ! a)\<rparr>)"
       "currentPlayer ?s3 = currentPlayer st" "gameMode ?s3 = gameMode st"
       "flippedCards ?s3 = []" "timers ?s3 = []"
       "isWon ?s3 = (isWon st \<or> matches st + 1 = 6)"
    unfolding s3 using s2(1-6) fcp by auto
  moreover have "isMatched (cards ?s3 ! a)" "isMatched (cards ?s3 ! i)"
    unfolding s3 using s2(7,8) a i fcid same by simp_all
  ultimately show ?thesis using r by blast
qed


lemma game0_inv: "sessionInv (game0 mode)"
proof -
  have h1: "6 \<le> length catalog6" by (simp add: catalog6_def)
  have "length catalog6 = 6" by (simp add: catalog6_def)
  then have h2: "mset [0..<6] = mset [0..<length catalog6]" by (simp only:)
  have h3: "mset [0..<12] = mset [0..<12]" by (rule refl)
  have h4: "timers initialApp = []" by (simp add: initialApp_def)
  show ?thesis unfolding game0_def by (rule sessionInv_initGame [OF h1 h2 h3 h4])
qed

lemma game0_positions: "positionsOk (stateOf (run evs (game0 mode)))"
proof -
  obtain s where "run evs (game0 mode) = Inr s" "sessionInv s"
    using sessionInv_run [OF game0_inv] by blast
  then show ?thesis by (simp add: stateOf_def sessionInv_def)
qed




text \<open>
  In every state reached from a fresh deck in which one card is selected, ids are
  positions, no callback is pending and the selected id is a position of the deck: the
  premises of the resolution lemmas hold in all of them.
\<close>

lemma second_flip_ready:
  assumes "sessionInv s" and "flippedCards s = [a]"
  shows "positionsOk s \<and> timers s = [] \<and> a < length (cards s)"
  using assms by (simp add: sessionInv_def timersOk_def selectionOk_def)

text \<open>
  C3: when the second card selected has the name of the first (from a state in which ids
  are positions and no callback is pending, as in every state reached from a fresh deck
  outside a resolution), the click and the two callbacks it sets off add exactly 1 to
  \<open>matches\<close>, exactly 1 to \<open>moves\<close>, and the \<open>points\<close> field of the card selected
  first (10 when the field is absent or 0) to \<open>scores.p1\<close> in a solo game or when
  player 1 is to move, else to \<open>scores.p2\<close>; the other score is unchanged.
\<close>

theorem match_counts_and_credit:
  assumes "positionsOk st" and "timers st = []" and "flippedCards st = [a]"
      and "a < length (cards st)" and "i < length (cards st)"
      and "\<not> isFlipped (cards st ! i)" and "\<not> isMatched (cards st ! i)"
      and "id' (cards st ! a) = id' (cards st ! i)"
  shows "\<exists>s. run [Click i, TimerFires 0, TimerFires 0] st = Inr s \<and>
             matches s = matches st + 1 \<and> moves s = moves st + 1 \<and>
             (if gameMode st = Solo \<or> currentPlayer st = Player1
              then p1 (scores s) = p1 (scores st) +
                     (case points (cards st ! a) of
                        None \<Rightarrow> 10 | Some p \<Rightarrow> if p = 0 then 10 else p) \<and>
                   p2 (scores s) = p2 (scores st)
              else p2 (scores s) = p2 (scores st) +
                     (case points (cards st ! a) of
                        None \<Rightarrow> 10 | Some p \<Rightarrow> if p = 0 then 10 else p) \<and>
                   p1 (scores s) = p1 (scores st))"
proof -
  obtain s where s: "run [Click i, TimerFires 0, TimerFires 0] st = Inr s"
      "matches s = matches st + 1" "moves s = moves st + 1"
      "scores s = (if gameMode st = Solo \<or> currentPlayer st = Player1
                   then (scores st)\<lparr>p1 := p1 (scores st) + cardPoints (cards st ! a)\<rparr>
                   else (scores st)\<lparr>p2 := p2 (scores st) + cardPoints (cards st ! a)\<rparr>)"
    using match_resolution [OF assms] by blast
  have "if gameMode st = Solo \<or> currentPlayer st = Player1
              then p1 (scores s) = p1 (scores st) +
                     (case points (cards st ! a) of
                        None \<Rightarrow> 10 | Some p \<Rightarrow> if p = 0 then 10 else p) \<and>
                   p2 (scores s) = p2 (scores st)
              else p2 (scores s) = p2 (scores st) +
                     (case points (cards st ! a) of
                        None \<Rightarrow> 10 | Some p \<Rightarrow> if p = 0 then 10 else p) \<and>
                   p1 (scores s) = p1 (scores st)"
    by (simp add: s(4) cardPoints_def)
  then show ?thesis using s(1-3) by blast
qed

theorem match_counts_and_credit_witness:
  "positionsOk afterMismatch \<and> timers afterMismatch = [] \<and> flippedCards afterMismatch = [2] \<and>
   2 < length (cards afterMismatch) \<and> 3 < length (cards afterMismatch) \<and>
   \<not> isFlipped (cards afterMismatch ! 3) \<and> \<not> isMatched (cards afterMismatch ! 3) \<and>
   id' (cards afterMismatch ! 2) = id' (cards afterMismatch ! 3) \<and>
   gameMode afterMismatch = Multiplayer \<and> currentPlayer afterMismatch = Player2 \<and>
   points (cards afterMismatch ! 2) = Some 20 \<and>
   (\<exists>s. run [Click 3, TimerFires 0, TimerFires 0] afterMismatch = Inr s \<and>
        matches s = matches afterMismatch + 1 \<and> moves s = moves afterMismatch + 1 \<and>
        p2 (scores s) = p2 (scores afterMismatch) + 20 \<and>
        p1 (scores s) = p1 (scores afterMismatch))"
proof -
  have h1: "positionsOk afterMismatch"
    unfolding afterMismatch_def by (rule game0_positions)
  have h: "timers afterMismatch = []" "flippedCards afterMismatch = [2]"
    "2 < length (cards afterMismatch)" "3 < length (cards afterMismatch)"
    "\<not> isFlipped (cards afterMismatch ! 3)" "\<not> isMatched (cards afterMismatch ! 3)"
    "id' (cards afterMismatch ! 2) = id' (cards afterMismatch ! 3)"
    by code_simp+
  have g: "gameMode afterMismatch = Multiplayer" "currentPlayer afterMismatch = Player2"
    "points (cards afterMismatch ! 2) = Some 20"
    by code_simp+
  note t = match_counts_and_credit [OF h1 h]
  have c: "\<exists>s. run [Click 3, TimerFires 0, TimerFires 0] afterMismatch = Inr s \<and>
        matches s = matches afterMismatch + 1 \<and> moves s = moves afterMismatch + 1 \<and>
        p2 (scores s) = p2 (scores afterMismatch) + 20 \<and>
        p1 (scores s) = p1 (scores afterMismatch)"
    using t g by auto
  show ?thesis using h1 h g c by blast
qed

text \<open>
  C10: when the pair selected matches and the \<open>points\<close> field of the card is absent,
  null or 0, the resolution credits exactly 10 points: to \<open>scores.p1\<close> in a solo game or
  when player 1 is to move, else to \<open>scores.p2\<close>, the other score unchanged.
\<close>

theorem default_points_credit_ten:
  assumes "positionsOk st" and "timers st = []" and "flippedCards st = [a]"
      and "a < length (cards st)" and "i < length (cards st)"
      and "\<not> isFlipped (cards st ! i)" and "\<not> isMatched (cards st ! i)"
      and "id' (cards st ! a) = id' (cards st ! i)"
      and dflt: "points (cards st ! a) = None \<or> points (cards st ! a) = Some 0"
  shows "\<exists>s. run [Click i, TimerFires 0, TimerFires 0] st = Inr s \<and>
             (if gameMode st = Solo \<or> currentPlayer st = Player1
              then p1 (scores s) = p1 (scores st) + 10 \<and> p2 (scores s) = p2 (scores st)
              else p2 (scores s) = p2 (scores st) + 10 \<and> p1 (scores s) = p1 (scores st))"
proof -
  have ten: "cardPoints (cards st ! a) = 10"
    using dflt by (auto simp: cardPoints_def)
  obtain s where s: "run [Click i, TimerFires 0, TimerFires 0] st = Inr s"
      "scores s = (if gameMode st = Solo \<or> currentPlayer st = Player1
                   then (scores st)\<lparr>p1 := p1 (scores st) + cardPoints (cards st ! a)\<rparr>
                   else (scores st)\<lparr>p2 := p2 (scores st) + cardPoints (cards st ! a)\<rparr>)"
    using match_resolution [OF assms(1-8)] by blast
  have "if gameMode st = Solo \<or> currentPlayer st = Player1
              then p1 (scores s) = p1 (scores st) + 10 \<and> p2 (scores s) = p2 (scores st)
              else p2 (scores s) = p2 (scores st) + 10 \<and> p1 (scores s) = p1 (scores st)"
    by (simp add: s(2) ten)
  then show ?thesis using s(1) by blast
qed

theorem default_points_credit_ten_witness:
  "positionsOk (afterFirstFlip Solo 6) \<and> timers (afterFirstFlip Solo 6) = [] \<and>
   flippedCards (afterFirstFlip Solo 6) = [6] \<and>
   6 < length (cards (afterFirstFlip Solo 6)) \<and> 7 < length (cards (afterFirstFlip Solo 6)) \<and>
   \<not> isFlipped (cards (afterFirstFlip Solo 6) ! 7) \<and>
   \<not> isMatched (cards (afterFirstFlip Solo 6) ! 7) \<and>
   id' (cards (afterFirstFlip Solo 6) ! 6) = id' (cards (afterFirstFlip Solo 6) ! 7) \<and>
   points (cards (afterFirstFlip Solo 6) ! 6) = Some 0 \<and>
   gameMode (afterFirstFlip Solo 6) = Solo \<and>
   (\<exists>s. run [Click 7, TimerFires 0, TimerFires 0] (afterFirstFlip Solo 6) = Inr s \<and>
        p1 (scores s) = p1 (scores (afterFirstFlip Solo 6)) + 10 \<and>
        p2 (scores s) = p2 (scores (afterFirstFlip Solo 6)))"
proof -
  have h1: "positionsOk (afterFirstFlip Solo 6)"
    unfolding afterFirstFlip_def by (rule game0_positions)
  have h: "timers (afterFirstFlip Solo 6) = []" "flippedCards (afterFirstFlip Solo 6) = [6]"
    "6 < length (cards (afterFirstFlip Solo 6))" "7 < length (cards (afterFirstFlip Solo 6))"
    "\<not> isFlipped (cards (afterFirstFlip Solo 6) ! 7)"
    "\<not> isMatched (cards (afterFirstFlip Solo 6) ! 7)"
    "id' (cards (afterFirstFlip Solo 6) ! 6) = id' (cards (afterFirstFlip Solo 6) ! 7)"
    by code_simp+
  have p: "points (cards (afterFirstFlip Solo 6) ! 6) = Some 0" by code_simp
  have g: "gameMode (afterFirstFlip Solo 6) = Solo" by code_simp
  have d: "points (cards (afterFirstFlip Solo 6) ! 6) = None \<or>
           points (cards (afterFirstFlip Solo 6) ! 6) = Some 0"
    using p by simp
  note t = default_points_credit_ten [OF h1 h d]
  have c: "\<exists>s. run [Click 7, TimerFires 0, TimerFires 0] (afterFirstFlip Solo 6) = Inr s \<and>
        p1 (scores s) = p1 (scores (afterFirstFlip Solo 6)) + 10 \<and>
        p2 (scores s) = p2 (scores (afterFirstFlip Solo 6))"
    using t g by auto
  show ?thesis using h1 h p g c by blast
qed



section \<open>Restarting while a resolution is pending\<close>

text \<open>
  C8 as stated fails: \<open>initGame\<close> resets the state cells and leaves the pending callbacks
  where they are. In \<open>staleRestart\<close> the pair A was selected, then the game was restarted
  with a new deck; the highlight callback of the old session is still pending, and when it
  and the callback nested in it fire, the new session has 1 match, 10 points and a matched
  card without any click; a card selected in the new session stays face-up while the
  stale callback empties the selection buffer.
\<close>

theorem stale_timer_mutates_new_game:
  "length (timers staleRestart) = 1 \<and>
   matches staleRestart = 0 \<and> moves staleRestart = 0 \<and>
   scores staleRestart = \<lparr>p1 = 0, p2 = 0\<rparr> \<and>
   isMatched (cards staleRestart ! 11) = False \<and>
   matches (fireTimer 0 (fireTimer 0 staleRestart)) = 1 \<and>
   scores (fireTimer 0 (fireTimer 0 staleRestart)) = \<lparr>p1 = 10, p2 = 0\<rparr> \<and>
   isMatched (cards (fireTimer 0 (fireTimer 0 staleRestart)) ! 11) = True \<and>
   flippedCards (stateOf (cardOnClick 5 staleRestart)) = [5] \<and>
   flippedCards (fireTimer 0 (fireTimer 0 (stateOf (cardOnClick 5 staleRestart)))) = [] \<and>
   isFlipped (cards (fireTimer 0 (fireTimer 0 (stateOf (cardOnClick 5 staleRestart)))) ! 5) = True"
  by code_simp

text \<open>
  C8, as the code has it: neither \<open>initGame\<close> nor the return to the menu removes a
  pending callback. A successful \<open>initGame\<close> resets the selection buffer, the matches, the
  moves and the scores around the new deck; a match callback of the previous session that
  fires afterwards acts on the new state: it counts 1 match, credits its points and
  empties the selection buffer.
\<close>

theorem restart_keeps_timers:
  "timers (initGame modeArg allCards order1 order2 tmpId st) = timers st \<and>
   timers (returnToMenu st) = timers st \<and>
   (6 \<le> length allCards \<longrightarrow>
      flippedCards (initGame modeArg allCards order1 order2 tmpId st) = [] \<and>
      matches (initGame modeArg allCards order1 order2 tmpId st) = 0 \<and>
      moves (initGame modeArg allCards order1 order2 tmpId st) = 0 \<and>
      scores (initGame modeArg allCards order1 order2 tmpId st) = \<lparr>p1 = 0, p2 = 0\<rparr> \<and>
      cards (initGame modeArg allCards order1 order2 tmpId st) =
        buildDeck order1 order2 tmpId allCards \<and>
      (k < length (timers st) \<and> snd (timers st ! k) = MatchResolve firstCard gm cp m \<longrightarrow>
         matches (fireTimer k (initGame modeArg allCards order1 order2 tmpId st)) = 1 \<and>
         flippedCards (fireTimer k (initGame modeArg allCards order1 order2 tmpId st)) = [] \<and>
         scores (fireTimer k (initGame modeArg allCards order1 order2 tmpId st)) =
           (if gm = Solo \<or> cp = Player1 then \<lparr>p1 = cardPoints firstCard, p2 = 0\<rparr>
            else \<lparr>p1 = 0, p2 = cardPoints firstCard\<rparr>)))"
  by (auto simp: initGame_def handleAdminAccess_def returnToMenu_def fireTimer_def Let_def)

theorem restart_keeps_timers_witness:
  "6 \<le> length catalog6 \<and> 0 < length (timers pendingResolve) \<and>
   snd (timers pendingResolve ! 0) =
     MatchResolve ((cards pendingResolve ! 0)\<lparr>isHighlighting := None\<rparr>) Multiplayer Player1 0 \<and>
   timers (initGame (Some Solo) catalog6 [0..<6] [0..<12] (\<lambda>k. 0) pendingResolve) =
     timers pendingResolve \<and>
   matches (initGame (Some Solo) catalog6 [0..<6] [0..<12] (\<lambda>k. 0) pendingResolve) = 0 \<and>
   matches (fireTimer 0 (initGame (Some Solo) catalog6 [0..<6] [0..<12] (\<lambda>k. 0) pendingResolve))
     = 1 \<and>
   scores (fireTimer 0 (initGame (Some Solo) catalog6 [0..<6] [0..<12] (\<lambda>k. 0) pendingResolve))
     = \<lparr>p1 = 10, p2 = 0\<rparr>"
proof -
  have h1: "6 \<le> length catalog6" by (simp add: catalog6_def)
  have h2: "0 < length (timers pendingResolve)" by code_simp
  have h3: "snd (timers pendingResolve ! 0) =
     MatchResolve ((cards pendingResolve ! 0)\<lparr>isHighlighting := None\<rparr>) Multiplayer Player1 0"
    by code_simp
  have p: "cardPoints ((cards pendingResolve ! 0)\<lparr>isHighlighting := None\<rparr>) = 10"
    by code_simp
  note t = restart_keeps_timers [of "Some Solo" catalog6 "[0..<6]" "[0..<12]" "\<lambda>k. 0"
      pendingResolve 0 "(cards pendingResolve ! 0)\<lparr>isHighlighting := None\<rparr>" Multiplayer Player1 0]
  have c: "timers (initGame (Some Solo) catalog6 [0..<6] [0..<12] (\<lambda>k. 0) pendingResolve) =
     timers pendingResolve \<and>
   matches (initGame (Some Solo) catalog6 [0..<6] [0..<12] (\<lambda>k. 0) pendingResolve) = 0 \<and>
   matches (fireTimer 0 (initGame (Some Solo) catalog6 [0..<6] [0..<12] (\<lambda>k. 0) pendingResolve))
     = 1 \<and>
   scores (fireTimer 0 (initGame (Some Solo) catalog6 [0..<6] [0..<12] (\<lambda>k. 0) pendingResolve))
     = \<lparr>p1 = 10, p2 = 0\<rparr>"
    using t h1 h2 h3 p by simp
  show ?thesis using h1 h2 h3 c by blast
qed

section \<open>Flips the deck cannot answer\<close>

text \<open>
  C9 as stated fails on \<open>handleCardClick\<close>: for an id that no card of the deck carries
  the handler raises a TypeError (nothing is logged, nothing is caught), and for the id of
  a matched card it goes on as for any other card: here the matched card 0 enters the
  selection buffer.
\<close>

theorem invalid_flip_not_ignored:
  "handleCardClick 99 (game0 Solo) = Inl (TypeError, game0 Solo) \<and>
   isMatched (cards afterFirstMatch ! 0) = True \<and>
   flippedCards afterFirstMatch = [] \<and>
   flippedCards (stateOf (handleCardClick 0 afterFirstMatch)) = [0]"
  by code_simp

text \<open>
  C9, as the code has it: for an id that no card carries, \<open>handleCardClick\<close> returns the
  state as it is when two cards are pending and otherwise raises a TypeError before any
  state setter has run, so the state is the one before the call; a click on a matched
  card is dropped by the \<open>Card\<close> component and leaves the state as it is.
\<close>

theorem invalid_flip_leaves_state:
  "((\<forall>c \<in> set (cards st). uniqueId c \<noteq> uid) \<longrightarrow>
      handleCardClick uid st =
        (if length (flippedCards st) = 2 then Inr st else Inl (TypeError, st))) \<and>
   (i < length (cards st) \<and> isMatched (cards st ! i) \<longrightarrow> cardOnClick i st = Inr st)"
proof (intro conjI impI)
  assume a: "\<forall>c \<in> set (cards st). uniqueId c \<noteq> uid"
  have "findIndex (\<lambda>c. uniqueId c = uid) cs = None"
    if "\<forall>c \<in> set cs. uniqueId c \<noteq> uid" for cs :: "GameCard list"
    using that by (induction cs) auto
  with a show "handleCardClick uid st =
        (if length (flippedCards st) = 2 then Inr st else Inl (TypeError, st))"
    by (simp add: handleCardClick_def)
next
  assume "i < length (cards st) \<and> isMatched (cards st ! i)"
  then show "cardOnClick i st = Inr st"
    by (simp add: cardOnClick_def)
qed

theorem invalid_flip_leaves_state_witness:
  "99 \<notin> set (map uniqueId (cards (game0 Solo))) \<and>
   length (flippedCards (game0 Solo)) = 0 \<and>
   handleCardClick 99 (game0 Solo) = Inl (TypeError, game0 Solo) \<and>
   0 < length (cards afterFirstMatch) \<and> isMatched (cards afterFirstMatch ! 0) \<and>
   cardOnClick 0 afterFirstMatch = Inr afterFirstMatch"
proof -
  have h0: "99 \<notin> set (map uniqueId (cards (game0 Solo)))" by code_simp
  then have h1: "\<forall>c \<in> set (cards (game0 Solo)). uniqueId c \<noteq> 99" by auto
  have h2: "length (flippedCards (game0 Solo)) = 0" by code_simp
  have h3: "0 < length (cards afterFirstMatch)" "isMatched (cards afterFirstMatch ! 0)"
    by code_simp+
  note t = invalid_flip_leaves_state [of "game0 Solo" 99]
  note u = invalid_flip_leaves_state [of afterFirstMatch _ 0]
  have c1: "handleCardClick 99 (game0 Solo) = Inl (TypeError, game0 Solo)"
    using t h1 h2 by simp
  have c2: "cardOnClick 0 afterFirstMatch = Inr afterFirstMatch"
    using u h3 by blast
  show ?thesis using h0 h2 h3 c1 c2 by blast
qed

end
